theory Spec2Isabelle
  imports Main "HOL-Library.Char_ord"
begin

section \<open>caddy-anubis: host resolution and the per-domain server registry\<close>

text \<open>
  A shallow embedding of \<^verbatim>\<open>caddy_anubis.go\<close>. Go strings are byte sequences, so a
  string is a \<^typ>\<open>char list\<close> (a \<^typ>\<open>char\<close> is one byte). Go integers that index a
  string are \<^typ>\<open>int\<close>, so that the value \<open>-1\<close> of \<^verbatim>\<open>strings.LastIndexByte\<close> is
  the value the code tests. A run-time panic of Go is a value of type \<open>panic\<close>; a
  function that slices or dereferences returns \<open>panic + 'a\<close>.
\<close>

subsection \<open>Go primitives used by the source\<close>

datatype panic = SliceOutOfRange | NilDereference | AssignNilMap

definition then_p :: "panic + 'a \<Rightarrow> ('a \<Rightarrow> panic + 'b) \<Rightarrow> panic + 'b" where
  "then_p r f = (case r of Inl p \<Rightarrow> Inl p | Inr v \<Rightarrow> f v)"

text \<open>The slice expression \<^verbatim>\<open>s[lo:hi]\<close>: Go panics unless \<open>0 \<le> lo \<le> hi \<le> len(s)\<close>.\<close>

definition slice :: "string \<Rightarrow> int \<Rightarrow> int \<Rightarrow> panic + string" where
  "slice s lo hi =
     (if 0 \<le> lo \<and> lo \<le> hi \<and> hi \<le> int (length s)
      then Inr (take (nat (hi - lo)) (drop (nat lo) s))
      else Inl SliceOutOfRange)"

text \<open>\<^verbatim>\<open>s[lo:]\<close> and \<^verbatim>\<open>s[:hi]\<close>.\<close>

definition slice_from :: "string \<Rightarrow> int \<Rightarrow> panic + string" where
  "slice_from s lo = slice s lo (int (length s))"

definition slice_to :: "string \<Rightarrow> int \<Rightarrow> panic + string" where
  "slice_to s hi = slice s 0 hi"

text \<open>
  \<^verbatim>\<open>strings.LastIndexByte(s, c)\<close>: the loop \<^verbatim>\<open>for i := len(s) - 1; i >= 0; i--\<close> returning
  the first \<open>i\<close> with \<^verbatim>\<open>s[i] == c\<close>, and \<open>-1\<close> when there is none. The counter of the
  model is \<open>i + 1\<close>.
\<close>

fun LastIndexByte_loop :: "string \<Rightarrow> char \<Rightarrow> nat \<Rightarrow> int" where
  "LastIndexByte_loop s c 0 = - 1"
| "LastIndexByte_loop s c (Suc i) = (if s ! i = c then int i else LastIndexByte_loop s c i)"

definition LastIndexByte :: "string \<Rightarrow> char \<Rightarrow> int" where
  "LastIndexByte s c = LastIndexByte_loop s c (length s)"

text \<open>\<^verbatim>\<open>strings.HasPrefix\<close> and \<^verbatim>\<open>strings.HasSuffix\<close>, as the Go library defines them.\<close>

definition HasPrefix :: "string \<Rightarrow> string \<Rightarrow> bool" where
  "HasPrefix s pre = (length pre \<le> length s \<and> take (length pre) s = pre)"

definition HasSuffix :: "string \<Rightarrow> string \<Rightarrow> bool" where
  "HasSuffix s suf = (length suf \<le> length s \<and> drop (length s - length suf) s = suf)"

subsection \<open>The host and domain resolver\<close>

text \<open>
  The loop of \<^verbatim>\<open>validOptionalPort\<close>, \<^verbatim>\<open>for _, b := range port[1:]\<close>, returns false at
  the first \<open>b\<close> outside \<open>'0'..'9'\<close>. Go's \<^verbatim>\<open>range\<close> decodes runes: a byte below 0x80 is
  its own rune, and any rune that starts at a byte from 0x80 on is at least 0x80 (U+FFFD
  for invalid UTF-8), hence above \<open>'9'\<close>, as that byte is. So the loop over bytes returns
  what the loop over runes returns.
\<close>

fun validOptionalPort_loop :: "string \<Rightarrow> bool" where
  "validOptionalPort_loop [] = True"
| "validOptionalPort_loop (b # bs) =
     (if b < CHR ''0'' \<or> b > CHR ''9'' then False else validOptionalPort_loop bs)"

definition validOptionalPort :: "string \<Rightarrow> bool" where
  "validOptionalPort port =
     (case port of
        [] \<Rightarrow> True
      | p0 # rest \<Rightarrow> if p0 \<noteq> CHR '':'' then False else validOptionalPort_loop rest)"

definition splitHostPort :: "string \<Rightarrow> panic + (string \<times> string)" where
  "splitHostPort hostPort =
     (let host = hostPort;
          port = [];
          colon = LastIndexByte host CHR '':''
      in then_p
           (if colon \<noteq> - 1
            then then_p (slice_from host colon) (\<lambda>suffix.
                   if validOptionalPort suffix
                   then then_p (slice_to host colon) (\<lambda>h.
                        then_p (slice_from host (colon + 1)) (\<lambda>p. Inr (h, p)))
                   else Inr (host, port))
            else Inr (host, port))
           (\<lambda>(host, port).
              if HasPrefix host ''['' \<and> HasSuffix host '']''
              then then_p (slice host 1 (int (length host) - 1)) (\<lambda>h. Inr (h, port))
              else Inr (host, port)))"

definition splitSubDomainDomain :: "string \<Rightarrow> panic + (string \<times> string)" where
  "splitSubDomainDomain host =
     (let subdomain = [];
          domain = host;
          tldPeriod = LastIndexByte host CHR ''.''
      in if tldPeriod \<noteq> - 1
         then then_p (slice_to host tldPeriod) (\<lambda>withoutTLD.
                let subdomainPeriod = LastIndexByte withoutTLD CHR ''.''
                in if subdomainPeriod \<noteq> - 1
                   then then_p (slice_to host subdomainPeriod) (\<lambda>sub.
                        then_p (slice_from host (subdomainPeriod + 1)) (\<lambda>dom. Inr (sub, dom)))
                   else Inr (subdomain, domain))
         else Inr (subdomain, domain))"

text \<open>\<^verbatim>\<open>DomainFromRequest\<close> reads only \<^verbatim>\<open>r.Host\<close>; the model takes that string.\<close>

definition DomainFromRequest :: "string \<Rightarrow> panic + string" where
  "DomainFromRequest rHost =
     then_p (splitHostPort rHost) (\<lambda>(host, _).
     then_p (splitSubDomainDomain host) (\<lambda>(_, domain). Inr domain))"

subsection \<open>The middleware, the registry of servers and the external library\<close>

text \<open>
  A Go \<^verbatim>\<open>error\<close> is identified with its message (\<^verbatim>\<open>err.Error()\<close>, the only thing the
  code reads of it); \<open>None\<close> of type \<open>error option\<close> is the nil error. A non-nil
  \<^verbatim>\<open>*libanubis.Server\<close> is an address: the position of the server among those
  constructed so far. Two pointers are the same object exactly when the addresses
  are equal.
\<close>

type_synonym error = string

type_synonym addr = nat

typedecl ParsedConfig

text \<open>Of \<^verbatim>\<open>*http.Request\<close> the code reads \<^verbatim>\<open>r.Host\<close> and \<^verbatim>\<open>r.URL.Path\<close>.\<close>

record Request =
  Host :: string
  URLPath :: string

text \<open>
  A \<^verbatim>\<open>caddyhttp.Handler\<close> is known by the error its \<^verbatim>\<open>ServeHTTP(w, r)\<close> returns; what
  it writes to the response is its own business. The handler Caddy passes is never nil.
\<close>

type_synonym Handler = "Request \<Rightarrow> error option"

text \<open>
  The struct \<^verbatim>\<open>AnubisMiddleware\<close>. \<^verbatim>\<open>Target\<close> and \<^verbatim>\<open>AnubisPolicy\<close> are pointers and
  \<^verbatim>\<open>Next\<close> is an interface, \<open>None\<close> when nil; \<^verbatim>\<open>AnubisServers\<close> is \<open>None\<close> when it is
  the nil map. The field \<^verbatim>\<open>logger\<close> is set by \<^verbatim>\<open>Provision\<close> before any request is
  served; what it logs is kept in \<open>logged\<close> below.
\<close>

record AnubisMiddleware =
  Target :: "string option"
  AnubisPolicy :: "ParsedConfig option"
  AnubisServers :: "(string \<rightharpoonup> addr) option"
  Next :: "Handler option"

text \<open>
  The \<^verbatim>\<open>libanubis.Options\<close> literal of \<^verbatim>\<open>CreateAnubisServer\<close>. Its field \<^verbatim>\<open>Next\<close> is
  always the same closure over the middleware \<open>m\<close>; the closure is \<open>passThrough\<close> below,
  which reads \<open>m\<close> when it is called.
\<close>

record Options =
  CookieDomain :: string
  CookieDynamicDomain :: bool
  CookieSecure :: bool
  Policy :: "ParsedConfig option"
  ServeRobotsTXT :: bool

datatype level = Info | Error

text \<open>
  The state a request runs in: the middleware \<open>m\<close>, the servers constructed so far
  (a server is recorded by the options it was built from), the number of calls of
  \<^verbatim>\<open>libanubis.New\<close> so far, and the log.
\<close>

record World = AnubisMiddleware +
  servers :: "Options list"
  newCalls :: nat
  logged :: "(level \<times> string) list"

text \<open>
  The library \<^verbatim>\<open>libanubis\<close> is not part of this repository; it is a parameter.
  \<open>New lib k opts\<close> is the error of the call number \<open>k\<close> of \<^verbatim>\<open>libanubis.New(opts)\<close>
  (\<open>None\<close>: the call returns a new server and a nil error).
  \<open>Serve lib a r\<close> is what \<^verbatim>\<open>ServeHTTP(w, r)\<close> of the server at \<open>a\<close> does: it answers the
  request itself (a challenge page, robots.txt, a denial), or it lets the request pass
  and calls \<^verbatim>\<open>Options.Next\<close>.
\<close>

datatype decision = Answer | Pass

record Lib =
  New :: "nat \<Rightarrow> Options \<Rightarrow> error option"
  Serve :: "addr \<Rightarrow> Request \<Rightarrow> decision"

text \<open>
  What a request got: \<open>Redirect url code\<close> is the call
  \<^verbatim>\<open>http.Redirect(w, r, url, code)\<close>, \<open>Downstream e\<close> the call \<^verbatim>\<open>m.Next.ServeHTTP(w, r)\<close>
  that returned \<open>e\<close>, \<open>EngineAnswer\<close> a response written by the server itself.
\<close>

datatype served = Redirect string nat | Downstream "error option" | EngineAnswer

definition StatusTemporaryRedirect :: nat where
  "StatusTemporaryRedirect = 307"

definition logInfo :: "string \<Rightarrow> World \<Rightarrow> World" where
  "logInfo msg w = w\<lparr>logged := logged w @ [(Info, msg)]\<rparr>"

definition logError :: "string \<Rightarrow> World \<Rightarrow> World" where
  "logError msg w = w\<lparr>logged := logged w @ [(Error, msg)]\<rparr>"

text \<open>
  Go maps: indexing a map (the nil map too) at a missing key gives the zero value, here
  the nil pointer \<open>None\<close>; assigning to an entry of the nil map panics. The code stores
  only servers returned by \<^verbatim>\<open>libanubis.New\<close> with a nil error, which are not nil.
\<close>

definition mapIndex :: "World \<Rightarrow> string \<Rightarrow> addr option" where
  "mapIndex w domain = (case AnubisServers w of None \<Rightarrow> None | Some t \<Rightarrow> t domain)"

definition mapAssign :: "World \<Rightarrow> string \<Rightarrow> addr \<Rightarrow> panic + World" where
  "mapAssign w domain a =
     (case AnubisServers w of
        None \<Rightarrow> Inl AssignNilMap
      | Some t \<Rightarrow> Inr (w\<lparr>AnubisServers := Some (t(domain \<mapsto> a))\<rparr>))"

text \<open>The closure given as \<^verbatim>\<open>Options.Next\<close> (lines 108 to 120).\<close>

definition passThrough :: "World \<Rightarrow> Request \<Rightarrow> panic + (served \<times> World)" where
  "passThrough w r =
     (let w1 = logInfo (''Anubis middleware calling next'' @ URLPath r) w
      in case Target w1 of
           Some target \<Rightarrow>
             Inr (Redirect target StatusTemporaryRedirect,
                  logInfo ''Target not null, redirecting'' w1)
         | None \<Rightarrow>
             (case Next w1 of
                None \<Rightarrow> Inl NilDereference
              | Some h \<Rightarrow>
                  (case h r of
                     None \<Rightarrow> Inr (Downstream None, w1)
                   | Some err \<Rightarrow>
                       Inr (Downstream (Some err),
                            logError (''Anubis error when calling Next'' @ err) w1))))"

text \<open>The \<^verbatim>\<open>libanubis.Options\<close> literal (lines 107 to 126), without the closure.\<close>

definition newOptions :: "string \<Rightarrow> World \<Rightarrow> Options" where
  "newOptions domain w =
     \<lparr>CookieDomain = domain, CookieDynamicDomain = True, CookieSecure = True,
      Policy = AnubisPolicy w, ServeRobotsTXT = True\<rparr>"

text \<open>\<^verbatim>\<open>CreateAnubisServer\<close> (lines 93 to 134).\<close>

definition CreateAnubisServer :: "Lib \<Rightarrow> World \<Rightarrow> Request \<Rightarrow> panic + (error option \<times> World)" where
  "CreateAnubisServer lib w r =
     then_p (DomainFromRequest (Host r)) (\<lambda>domain.
       let w1 = (case AnubisServers w of
                   None \<Rightarrow> w\<lparr>AnubisServers := Some Map.empty\<rparr>
                 | Some _ \<Rightarrow> w)
       in case mapIndex w1 domain of
            Some server \<Rightarrow>
              Inr (None, logInfo (''Anubis server already created for: '' @ domain) w1)
          | None \<Rightarrow>
              (let w2 = logInfo (''Creating new anubis server for domain: '' @ domain) w1;
                   opts = newOptions domain w2;
                   err = New lib (newCalls w2) opts;
                   w3 = w2\<lparr>newCalls := newCalls w2 + 1\<rparr>
               in case err of
                    Some e \<Rightarrow> Inr (Some e, w3)
                  | None \<Rightarrow>
                      (let anubisServer = length (servers w3);
                           w4 = w3\<lparr>servers := servers w3 @ [opts]\<rparr>
                       in then_p (mapAssign w4 domain anubisServer) (\<lambda>w5. Inr (None, w5)))))"

text \<open>
  What \<^verbatim>\<open>ServeHTTP\<close> of the middleware gives its caller: the error it returns, the
  server the request was delegated to (if any), and what the request got.
\<close>

record Outcome =
  returned :: "error option"
  delegatedTo :: "addr option"
  response :: "served option"

text \<open>
  \<^verbatim>\<open>ServeHTTP\<close> (lines 158 to 171). Calling \<^verbatim>\<open>ServeHTTP\<close> on a nil \<^verbatim>\<open>*libanubis.Server\<close>
  dereferences it. \<^verbatim>\<open>slog.SetLogLoggerLevel\<close> changes nothing the code reads.
\<close>

definition ServeHTTP :: "Lib \<Rightarrow> World \<Rightarrow> Request \<Rightarrow> Handler \<Rightarrow> panic + (Outcome \<times> World)" where
  "ServeHTTP lib w r next =
     then_p (DomainFromRequest (Host r)) (\<lambda>domain.
     then_p (CreateAnubisServer lib w r) (\<lambda>(err, w1).
       case err of
         Some e \<Rightarrow>
           Inr (\<lparr>returned = Some e, delegatedTo = None, response = None\<rparr>,
                logError (''Anubis middleware create server error'' @ e) w1)
       | None \<Rightarrow>
           (let w2 = logInfo (''Anubis middleware processing request, path: '' @ URLPath r) w1;
                w3 = logInfo ''Anubis middleware sending request'' w2;
                w4 = w3\<lparr>Next := Some next\<rparr>
            in case mapIndex w4 domain of
                 None \<Rightarrow> Inl NilDereference
               | Some a \<Rightarrow>
                   (case Serve lib a r of
                      Answer \<Rightarrow>
                        Inr (\<lparr>returned = None, delegatedTo = Some a,
                              response = Some EngineAnswer\<rparr>, w4)
                    | Pass \<Rightarrow>
                        then_p (passThrough w4 r) (\<lambda>(s, w5).
                          Inr (\<lparr>returned = None, delegatedTo = Some a,
                                response = Some s\<rparr>, w5))))))"

text \<open>
  A sequence of requests served one after the other by the same middleware, each with
  the handler Caddy passes for it: the driver of the claims about \<open>N\<close> sequential
  requests.
\<close>

fun sequentialRequests ::
  "Lib \<Rightarrow> World \<Rightarrow> (Request \<times> Handler) list \<Rightarrow> panic + (Outcome list \<times> World)" where
  "sequentialRequests lib w [] = Inr ([], w)"
| "sequentialRequests lib w ((r, next) # rs) =
     then_p (ServeHTTP lib w r next) (\<lambda>(out, w1).
     then_p (sequentialRequests lib w1 rs) (\<lambda>(outs, w2). Inr (out # outs, w2)))"

section \<open>Properties of the resolver\<close>

subsection \<open>Auxiliary facts\<close>

lemma LastIndexByte_loop_absent:
  "c \<notin> set s \<Longrightarrow> n \<le> length s \<Longrightarrow> LastIndexByte_loop s c n = - 1"
  by (induction n) auto

lemma LastIndexByte_loop_last:
  "c \<notin> set ys \<Longrightarrow> k \<le> length ys \<Longrightarrow>
   LastIndexByte_loop (xs @ c # ys) c (Suc (length xs + k)) = int (length xs)"
proof (induction k)
  case 0
  then show ?case by simp
next
  case (Suc k)
  then have "(xs @ c # ys) ! (Suc (length xs + k)) = ys ! k"
    by (simp add: nth_append)
  moreover have "ys ! k \<noteq> c" using Suc.prems by (metis Suc_le_lessD nth_mem)
  ultimately show ?case using Suc by simp
qed

lemma LastIndexByte_absent: "c \<notin> set s \<Longrightarrow> LastIndexByte s c = - 1"
  by (simp add: LastIndexByte_def LastIndexByte_loop_absent)

lemma LastIndexByte_last:
  "c \<notin> set ys \<Longrightarrow> LastIndexByte (xs @ c # ys) c = int (length xs)"
  using LastIndexByte_loop_last [of c ys "length ys" xs]
  by (simp add: LastIndexByte_def)

lemma LastIndexByte_cases:
  obtains (absent) "c \<notin> set s" "LastIndexByte s c = - 1"
  | (found) xs ys where "s = xs @ c # ys" "c \<notin> set ys" "LastIndexByte s c = int (length xs)"
proof (cases "c \<in> set s")
  case True
  then obtain xs ys where "s = xs @ c # ys" "c \<notin> set ys"
    by (meson split_list_last)
  then show ?thesis using found LastIndexByte_last by blast
next
  case False
  then show ?thesis using absent LastIndexByte_absent by blast
qed

lemma slice_to_append: "slice_to (xs @ ys) (int (length xs)) = Inr xs"
  by (simp add: slice_to_def slice_def)

lemma slice_from_append: "slice_from (xs @ ys) (int (length xs)) = Inr ys"
  by (simp add: slice_from_def slice_def)

lemma slice_from_append_Suc: "slice_from (xs @ c # ys) (int (length xs) + 1) = Inr ys"
  using slice_from_append [of "xs @ [c]" ys] by (simp add: add.commute)

lemma ascii_digit_iff:
  "(\<not> (b < CHR ''0'' \<or> b > CHR ''9'')) = (b \<in> set ''0123456789'')"
  by (cases b) (simp add: less_char_def)

lemma validOptionalPort_loop_iff:
  "validOptionalPort_loop ds = (set ds \<subseteq> set ''0123456789'')"
proof (induction ds)
  case Nil
  then show ?case by simp
next
  case (Cons b bs)
  show ?case using Cons.IH ascii_digit_iff [of b] by (simp del: set_simps) auto
qed


lemma bracketed_slice:
  assumes "HasPrefix h ''[''" "HasSuffix h '']''"
  obtains inner where "h = CHR ''['' # inner @ '']''"
    and "slice h 1 (int (length h) - 1) = Inr inner"
proof -
  from assms(1) obtain t where h: "h = CHR ''['' # t"
    by (cases h) (auto simp: HasPrefix_def)
  from assms(2) h have "t \<noteq> []" by (auto simp: HasSuffix_def)
  then obtain inner z where t: "t = inner @ [z]" by (metis rev_exhaust)
  with assms(2) h have "z = CHR '']''" by (simp add: HasSuffix_def)
  with h t have "h = CHR ''['' # inner @ '']''" by simp
  moreover from this have "slice h 1 (int (length h) - 1) = Inr inner"
    by (simp add: slice_def)
  ultimately show ?thesis using that by blast
qed

lemma splitHostPort_port:
  assumes "set p \<subseteq> set ''0123456789''"
  shows "splitHostPort (h @ CHR '':'' # p) =
           (if HasPrefix h ''['' \<and> HasSuffix h '']''
            then then_p (slice h 1 (int (length h) - 1)) (\<lambda>x. Inr (x, p))
            else Inr (h, p))"
proof -
  from assms have nocolon: "CHR '':'' \<notin> set p" by auto
  have v: "validOptionalPort (CHR '':'' # p)"
    using assms by (simp add: validOptionalPort_def validOptionalPort_loop_iff)
  show ?thesis
    unfolding splitHostPort_def Let_def
    by (simp add: LastIndexByte_last [OF nocolon] slice_from_append slice_to_append
        slice_from_append_Suc v then_p_def)
qed

lemma splitHostPort_noport:
  assumes "\<not> (\<exists>a p. h = a @ CHR '':'' # p \<and> set p \<subseteq> set ''0123456789'')"
  shows "splitHostPort h =
           (if HasPrefix h ''['' \<and> HasSuffix h '']''
            then then_p (slice h 1 (int (length h) - 1)) (\<lambda>x. Inr (x, []))
            else Inr (h, []))"
proof (cases h "CHR '':''" rule: LastIndexByte_cases)
  case absent
  then show ?thesis
    unfolding splitHostPort_def Let_def by (simp add: then_p_def)
next
  case (found xs ys)
  with assms have "\<not> set ys \<subseteq> set ''0123456789''" by blast
  then have "\<not> validOptionalPort (CHR '':'' # ys)"
    by (simp add: validOptionalPort_def validOptionalPort_loop_iff)
  with found show ?thesis
    unfolding splitHostPort_def Let_def
    by (simp add: slice_from_append then_p_def)
qed

lemma splitHostPort_total: "\<exists>host port. splitHostPort h = Inr (host, port)"
proof -
  have step2: "\<exists>host port.
      (if HasPrefix a ''['' \<and> HasSuffix a '']''
       then then_p (slice a 1 (int (length a) - 1)) (\<lambda>x. Inr (x, p))
       else Inr (a, p)) = Inr (host, port)" for a p
  proof (cases "HasPrefix a ''['' \<and> HasSuffix a '']''")
    case True
    then obtain inner where "slice a 1 (int (length a) - 1) = Inr inner"
      using bracketed_slice by blast
    with True show ?thesis by (simp add: then_p_def)
  next
    case False
    then show ?thesis by auto
  qed
  show ?thesis
  proof (cases h "CHR '':''" rule: LastIndexByte_cases)
    case absent
    then have "splitHostPort h =
        (if HasPrefix h ''['' \<and> HasSuffix h '']''
         then then_p (slice h 1 (int (length h) - 1)) (\<lambda>x. Inr (x, []))
         else Inr (h, []))"
      unfolding splitHostPort_def Let_def by (simp add: then_p_def)
    then show ?thesis using step2 [of h "[]"] by simp
  next
    case (found xs ys)
    then have "splitHostPort h =
        (if validOptionalPort (CHR '':'' # ys)
         then (if HasPrefix xs ''['' \<and> HasSuffix xs '']''
               then then_p (slice xs 1 (int (length xs) - 1)) (\<lambda>x. Inr (x, ys))
               else Inr (xs, ys))
         else (if HasPrefix h ''['' \<and> HasSuffix h '']''
               then then_p (slice h 1 (int (length h) - 1)) (\<lambda>x. Inr (x, []))
               else Inr (h, [])))"
      unfolding splitHostPort_def Let_def
      by (simp add: slice_from_append slice_to_append slice_from_append_Suc then_p_def)
    then show ?thesis using step2 [of xs ys] step2 [of h "[]"]
      by (cases "validOptionalPort (CHR '':'' # ys)") (simp_all only: if_True if_False)
  qed
qed

lemma splitSubDomainDomain_nodot:
  "CHR ''.'' \<notin> set host \<Longrightarrow> splitSubDomainDomain host = Inr ([], host)"
  by (simp add: splitSubDomainDomain_def LastIndexByte_absent)

lemma splitSubDomainDomain_onedot:
  "CHR ''.'' \<notin> set l1 \<Longrightarrow> CHR ''.'' \<notin> set l2 \<Longrightarrow>
   splitSubDomainDomain (l1 @ CHR ''.'' # l2) = Inr ([], l1 @ CHR ''.'' # l2)"
  by (simp add: splitSubDomainDomain_def Let_def LastIndexByte_last LastIndexByte_absent
      slice_to_append then_p_def)

lemma splitSubDomainDomain_twodots:
  assumes "CHR ''.'' \<notin> set l1" "CHR ''.'' \<notin> set l2"
  shows "splitSubDomainDomain (pre @ CHR ''.'' # l1 @ CHR ''.'' # l2) =
           Inr (pre, l1 @ CHR ''.'' # l2)"
proof -
  let ?h = "pre @ CHR ''.'' # l1 @ CHR ''.'' # l2"
  have tld: "LastIndexByte ?h CHR ''.'' = int (length (pre @ CHR ''.'' # l1))"
    using LastIndexByte_last [OF assms(2), of "pre @ CHR ''.'' # l1"] by simp
  have wo: "slice_to ?h (int (length (pre @ CHR ''.'' # l1))) = Inr (pre @ CHR ''.'' # l1)"
    using slice_to_append [of "pre @ CHR ''.'' # l1" "CHR ''.'' # l2"] by simp
  have sub: "LastIndexByte (pre @ CHR ''.'' # l1) CHR ''.'' = int (length pre)"
    using LastIndexByte_last [OF assms(1)] by simp
  show ?thesis
    unfolding splitSubDomainDomain_def Let_def tld
    by (simp only: wo then_p_def sum.case sub)
       (simp add: slice_to_append slice_from_append_Suc)
qed

lemma splitSubDomainDomain_total: "\<exists>sub dom. splitSubDomainDomain h = Inr (sub, dom)"
proof (cases h "CHR ''.''" rule: LastIndexByte_cases)
  case absent
  then show ?thesis by (simp add: splitSubDomainDomain_nodot)
next
  case (found xs ys)
  note outer = found
  show ?thesis
  proof (cases xs "CHR ''.''" rule: LastIndexByte_cases)
    case absent
    with outer show ?thesis by (simp add: splitSubDomainDomain_onedot)
  next
    case (found pre l1)
    with outer show ?thesis using splitSubDomainDomain_twodots [of l1 ys pre] by simp
  qed
qed


lemma slice_brackets:
  "slice (CHR ''['' # inner @ '']'') 1 (int (length (CHR ''['' # inner @ '']'')) - 1) = Inr inner"
  by (simp add: slice_def)

lemma brackets_HasPrefix_HasSuffix:
  "HasPrefix (CHR ''['' # inner @ '']'') ''['' \<and> HasSuffix (CHR ''['' # inner @ '']'') '']''"
  by (simp add: HasPrefix_def HasSuffix_def)

lemma last_segment_unique:
  fixes c :: char
  assumes "x @ c # s = a @ c # p" "c \<notin> set s" "c \<notin> set p"
  shows "s = p"
proof -
  have "int (length x) = int (length a)"
    using LastIndexByte_last [OF assms(2), of x] LastIndexByte_last [OF assms(3), of a] assms(1)
    by simp
  with assms(1) show ?thesis by simp
qed

lemma no_colon_no_port:
  "CHR '':'' \<notin> set h \<Longrightarrow> \<not> (\<exists>a p. h = a @ CHR '':'' # p \<and> set p \<subseteq> set ''0123456789'')"
  by auto

lemma DomainFromRequest_total: "\<exists>d. DomainFromRequest h = Inr d"
proof -
  obtain host port where "splitHostPort h = Inr (host, port)"
    using splitHostPort_total by blast
  moreover obtain sub dom where "splitSubDomainDomain host = Inr (sub, dom)"
    using splitSubDomainDomain_total by blast
  ultimately show ?thesis by (simp add: DomainFromRequest_def then_p_def)
qed

subsection \<open>The claims about the resolver\<close>

text \<open>
  Claim C5. Apex-domain resolution keeps the last two dot-separated labels:
  \<open>a.b.example.com\<close>, \<open>x.example.com\<close> and \<open>example.com\<close> all resolve to
  \<open>example.com\<close>, \<open>localhost\<close> resolves to \<open>localhost\<close>, hence
  \<open>a.b.example.com\<close> and \<open>example.com\<close> resolve to the same domain. In general, for
  labels \<open>l1\<close> and \<open>l2\<close> without a dot, \<^const>\<open>splitSubDomainDomain\<close> splits
  \<open>pre.l1.l2\<close> into the subdomain \<open>pre\<close> and the domain \<open>l1.l2\<close>, keeps \<open>l1.l2\<close>
  and \<open>l1\<close> whole, and \<^const>\<open>DomainFromRequest\<close> returns \<open>l1.l2\<close> for a host
  \<open>pre.l1.l2\<close> that has no colon and is not wrapped in brackets.
\<close>
theorem apex_is_last_two_labels:
  "DomainFromRequest ''a.b.example.com'' = Inr ''example.com'' \<and>
   DomainFromRequest ''x.example.com'' = Inr ''example.com'' \<and>
   DomainFromRequest ''example.com'' = Inr ''example.com'' \<and>
   DomainFromRequest ''localhost'' = Inr ''localhost'' \<and>
   DomainFromRequest ''a.b.example.com'' = DomainFromRequest ''example.com'' \<and>
   (CHR ''.'' \<notin> set l1 \<and> CHR ''.'' \<notin> set l2 \<longrightarrow>
      splitSubDomainDomain (pre @ CHR ''.'' # l1 @ CHR ''.'' # l2) = Inr (pre, l1 @ CHR ''.'' # l2) \<and>
      splitSubDomainDomain (l1 @ CHR ''.'' # l2) = Inr ([], l1 @ CHR ''.'' # l2) \<and>
      splitSubDomainDomain l1 = Inr ([], l1)) \<and>
   (CHR ''.'' \<notin> set l1 \<and> CHR ''.'' \<notin> set l2 \<and> CHR '':'' \<notin> set (pre @ l1 @ l2) \<and>
    \<not> (HasPrefix (pre @ CHR ''.'' # l1 @ CHR ''.'' # l2) ''['' \<and>
       HasSuffix (pre @ CHR ''.'' # l1 @ CHR ''.'' # l2) '']'') \<longrightarrow>
      DomainFromRequest (pre @ CHR ''.'' # l1 @ CHR ''.'' # l2) = Inr (l1 @ CHR ''.'' # l2))"
proof -
  have ev: "DomainFromRequest ''a.b.example.com'' = Inr ''example.com''"
    "DomainFromRequest ''x.example.com'' = Inr ''example.com''"
    "DomainFromRequest ''example.com'' = Inr ''example.com''"
    "DomainFromRequest ''localhost'' = Inr ''localhost''"
    by code_simp+
  have gen: "DomainFromRequest (pre @ CHR ''.'' # l1 @ CHR ''.'' # l2) = Inr (l1 @ CHR ''.'' # l2)"
    if "CHR ''.'' \<notin> set l1" "CHR ''.'' \<notin> set l2" "CHR '':'' \<notin> set (pre @ l1 @ l2)"
      "\<not> (HasPrefix (pre @ CHR ''.'' # l1 @ CHR ''.'' # l2) ''['' \<and>
          HasSuffix (pre @ CHR ''.'' # l1 @ CHR ''.'' # l2) '']'')"
  proof -
    let ?h = "pre @ CHR ''.'' # l1 @ CHR ''.'' # l2"
    from that(3) have "CHR '':'' \<notin> set ?h" by simp
    then have "splitHostPort ?h = Inr (?h, [])"
      using splitHostPort_noport [OF no_colon_no_port, of ?h] that(4) by simp
    then show ?thesis
      by (simp add: DomainFromRequest_def then_p_def splitSubDomainDomain_twodots that(1,2))
  qed
  show ?thesis
    using ev gen
    by (simp add: splitSubDomainDomain_twodots splitSubDomainDomain_onedot
        splitSubDomainDomain_nodot)
qed

theorem apex_is_last_two_labels_witness:
  "CHR ''.'' \<notin> set ''example'' \<and> CHR ''.'' \<notin> set ''com'' \<and>
   CHR '':'' \<notin> set (''a.b'' @ ''example'' @ ''com'') \<and>
   \<not> (HasPrefix ''a.b.example.com'' ''['' \<and> HasSuffix ''a.b.example.com'' '']'') \<and>
   splitSubDomainDomain ''a.b.example.com'' = Inr (''a.b'', ''example.com'') \<and>
   DomainFromRequest ''a.b.example.com'' = Inr ''example.com''"
  using apex_is_last_two_labels [of "''example''" "''com''" "''a.b''"]
  by (simp add: HasPrefix_def)

text \<open>
  Claim C7. For a bracketed literal followed by a numeric port, \<open>[a]:ds\<close> with \<open>ds\<close>
  ASCII digits, \<^const>\<open>splitHostPort\<close> strips the port and then the brackets: the host
  is \<open>a\<close> and the port \<open>ds\<close>, so the string split into subdomain and domain is
  the bare address \<open>a\<close> (for \<open>[::1]:80\<close> it is \<open>::1\<close>).
\<close>
theorem bracketed_ipv6_with_port:
  "set ds \<subseteq> set ''0123456789'' \<Longrightarrow>
   splitHostPort (CHR ''['' # a @ '']'' @ CHR '':'' # ds) = Inr (a, ds) \<and>
   DomainFromRequest (CHR ''['' # a @ '']'' @ CHR '':'' # ds) =
     then_p (splitSubDomainDomain a) (\<lambda>(_, domain). Inr domain)"
proof -
  assume ds: "set ds \<subseteq> set ''0123456789''"
  let ?b = "CHR ''['' # a @ '']''"
  have "HasPrefix ?b ''[''" "HasSuffix ?b '']''"
    using brackets_HasPrefix_HasSuffix by simp_all
  moreover have "slice ?b 1 (int (length ?b) - 1) = Inr a"
    by (rule slice_brackets)
  ultimately have "splitHostPort (?b @ CHR '':'' # ds) = Inr (a, ds)"
    using splitHostPort_port [OF ds, of ?b] by (simp add: then_p_def)
  then show ?thesis by (simp add: DomainFromRequest_def then_p_def)
qed

theorem bracketed_ipv6_with_port_witness:
  "set ''80'' \<subseteq> set ''0123456789'' \<and> splitHostPort ''[::1]:80'' = Inr (''::1'', ''80'') \<and>
   DomainFromRequest ''[::1]:80'' = Inr ''::1''"
proof -
  have d: "set ''80'' \<subseteq> set ''0123456789''" by simp
  have s: "splitSubDomainDomain ''::1'' = Inr ([], ''::1'')"
    by (simp add: splitSubDomainDomain_nodot)
  show ?thesis
    using bracketed_ipv6_with_port [OF d, of "''::1''"] d s by (simp add: then_p_def)
qed

text \<open>
  Claim C8. Resolution is total on every string, the empty one included: no slice of
  \<^const>\<open>splitHostPort\<close> or \<^const>\<open>splitSubDomainDomain\<close> is out of range, so
  \<^const>\<open>DomainFromRequest\<close> always returns a domain; and when the host left after the
  port and the brackets are stripped has fewer than two dots (no dot structure to
  split), that host is returned unchanged.
\<close>
theorem resolution_total:
  "\<exists>host port. splitHostPort h = Inr (host, port) \<and>
     (\<exists>d. DomainFromRequest h = Inr d) \<and>
     (length (filter (\<lambda>b. b = CHR ''.'') host) < 2 \<longrightarrow> DomainFromRequest h = Inr host)"
proof -
  obtain host port where hp: "splitHostPort h = Inr (host, port)"
    using splitHostPort_total by blast
  obtain sub dom where sd: "splitSubDomainDomain host = Inr (sub, dom)"
    using splitSubDomainDomain_total by blast
  have d: "DomainFromRequest h = Inr dom"
    using hp sd by (simp add: DomainFromRequest_def then_p_def)
  have "dom = host" if few: "length (filter (\<lambda>b. b = CHR ''.'') host) < 2"
  proof (cases host "CHR ''.''" rule: LastIndexByte_cases)
    case absent
    with sd show ?thesis by (simp add: splitSubDomainDomain_nodot)
  next
    case (found xs ys)
    with few have "CHR ''.'' \<notin> set xs"
      by (auto simp: filter_empty_conv)
    with found sd show ?thesis by (simp add: splitSubDomainDomain_onedot)
  qed
  with hp d show ?thesis by auto
qed

theorem resolution_total_witness:
  "splitHostPort [] = Inr ([], []) \<and> DomainFromRequest [] = Inr []"
proof -
  have e: "splitHostPort [] = Inr ([], [])" by code_simp
  from resolution_total [of "[]"] obtain host port where
    "splitHostPort [] = Inr (host, port)"
    "length (filter (\<lambda>b. b = CHR ''.'') host) < 2 \<longrightarrow> DomainFromRequest [] = Inr host"
    by blast
  with e show ?thesis by simp
qed

text \<open>
  Claim C10. An unbracketed host whose last colon is followed by digits only loses
  that colon-segment as a port, although it may be part of an IPv6 address: the host
  \<open>::1\<close> resolves to the domain \<open>:\<close>. In general \<open>h:ds\<close> with \<open>ds\<close> digits and
  \<open>h\<close> not wrapped in brackets splits into host \<open>h\<close> and port \<open>ds\<close>.
\<close>
theorem unbracketed_ipv6_loses_last_group:
  "DomainFromRequest ''::1'' = Inr '':'' \<and>
   (set ds \<subseteq> set ''0123456789'' \<and> \<not> (HasPrefix h ''['' \<and> HasSuffix h '']'') \<longrightarrow>
      splitHostPort (h @ CHR '':'' # ds) = Inr (h, ds))"
proof -
  have "DomainFromRequest ''::1'' = Inr '':''" by code_simp
  then show ?thesis using splitHostPort_port [of ds h] by auto
qed

theorem unbracketed_ipv6_loses_last_group_witness:
  "set ''1'' \<subseteq> set ''0123456789'' \<and> \<not> (HasPrefix '':'' ''['' \<and> HasSuffix '':'' '']'') \<and>
   splitHostPort ''::1'' = Inr ('':'', ''1'')"
  using unbracketed_ipv6_loses_last_group [of "''1''" "'':''"]
  by (simp add: HasPrefix_def)

text \<open>
  Claim C6, as stated for every host string, fails where the host itself ends in a
  colon followed by digits: only one such suffix is stripped. With \<open>h = ::1\<close> and the
  suffix \<open>:80\<close>, the host \<open>::1:80\<close> resolves to \<open>::1\<close>, and \<open>::1\<close> alone to \<open>:\<close>.
\<close>
theorem port_suffix_counterexample:
  "set ''80'' \<subseteq> set ''0123456789'' \<and>
   DomainFromRequest (''::1'' @ CHR '':'' # ''80'') = Inr ''::1'' \<and>
   DomainFromRequest ''::1'' = Inr '':''"
proof -
  have "DomainFromRequest ''::1:80'' = Inr ''::1''" "DomainFromRequest ''::1'' = Inr '':''"
    by code_simp+
  then show ?thesis by simp
qed

text \<open>
  Claim C6, amended. For every host string \<open>h\<close> that does not itself end in a colon
  followed by zero or more ASCII digits, and every suffix \<open>:ds\<close> of ASCII digits, the
  resolution of \<open>h:ds\<close> is the resolution of \<open>h\<close>. A trailing colon-segment \<open>seg\<close>
  with a non-digit character is kept: the host of \<open>g:seg\<close> is \<open>g:seg\<close> itself and
  the port is empty, when \<open>g:seg\<close> is not wrapped in brackets; and the host of the
  bracketed \<open>[g:seg]\<close> is \<open>g:seg\<close>.
\<close>
theorem port_suffix_ignored:
  "(set ds \<subseteq> set ''0123456789'' \<and>
    \<not> (\<exists>a p. h = a @ CHR '':'' # p \<and> set p \<subseteq> set ''0123456789'') \<longrightarrow>
      DomainFromRequest (h @ CHR '':'' # ds) = DomainFromRequest h) \<and>
   (CHR '':'' \<notin> set seg \<and> \<not> set seg \<subseteq> set ''0123456789'' \<and>
    \<not> (HasPrefix (g @ CHR '':'' # seg) ''['' \<and> HasSuffix (g @ CHR '':'' # seg) '']'') \<longrightarrow>
      splitHostPort (g @ CHR '':'' # seg) = Inr (g @ CHR '':'' # seg, [])) \<and>
   (CHR '':'' \<notin> set seg \<longrightarrow>
      splitHostPort (CHR ''['' # g @ CHR '':'' # seg @ '']'') = Inr (g @ CHR '':'' # seg, []))"
proof -
  have keep: "\<not> (\<exists>a p. x @ CHR '':'' # s = a @ CHR '':'' # p \<and> set p \<subseteq> set ''0123456789'')"
    if "CHR '':'' \<notin> set s" "\<not> set s \<subseteq> set ''0123456789''" for x s
  proof
    assume "\<exists>a p. x @ CHR '':'' # s = a @ CHR '':'' # p \<and> set p \<subseteq> set ''0123456789''"
    then obtain a p where eq: "x @ CHR '':'' # s = a @ CHR '':'' # p"
      and p: "set p \<subseteq> set ''0123456789''" by blast
    from p have "CHR '':'' \<notin> set p" by auto
    with eq that(1) have "s = p" by (rule last_segment_unique)
    with p that(2) show False by simp
  qed
  have one: "DomainFromRequest (h @ CHR '':'' # ds) = DomainFromRequest h"
    if "set ds \<subseteq> set ''0123456789''"
      "\<not> (\<exists>a p. h = a @ CHR '':'' # p \<and> set p \<subseteq> set ''0123456789'')"
    unfolding DomainFromRequest_def
    by (simp only: splitHostPort_port [OF that(1)] splitHostPort_noport [OF that(2)])
       (auto simp: then_p_def split: sum.splits)
  have two: "splitHostPort (g @ CHR '':'' # seg) = Inr (g @ CHR '':'' # seg, [])"
    if "CHR '':'' \<notin> set seg" "\<not> set seg \<subseteq> set ''0123456789''"
      "\<not> (HasPrefix (g @ CHR '':'' # seg) ''['' \<and> HasSuffix (g @ CHR '':'' # seg) '']'')"
    using splitHostPort_noport [OF keep [OF that(1,2)], of g] that(3) by simp
  have three: "splitHostPort (CHR ''['' # g @ CHR '':'' # seg @ '']'') = Inr (g @ CHR '':'' # seg, [])"
    if "CHR '':'' \<notin> set seg"
  proof -
    let ?w = "CHR ''['' # g @ CHR '':'' # seg @ '']''"
    have "CHR '':'' \<notin> set (seg @ '']'')" "\<not> set (seg @ '']'') \<subseteq> set ''0123456789''"
      using that by simp_all
    from keep [OF this, of "CHR ''['' # g"]
    have "\<not> (\<exists>a p. ?w = a @ CHR '':'' # p \<and> set p \<subseteq> set ''0123456789'')" by simp
    from splitHostPort_noport [OF this]
    show ?thesis
      using slice_brackets [of "g @ CHR '':'' # seg"]
        brackets_HasPrefix_HasSuffix [of "g @ CHR '':'' # seg"]
      by (simp add: then_p_def)
  qed
  show ?thesis using one two three by blast
qed

theorem port_suffix_ignored_witness:
  "set ''8080'' \<subseteq> set ''0123456789'' \<and>
   DomainFromRequest ''example.com:8080'' = DomainFromRequest ''example.com'' \<and>
   CHR '':'' \<notin> set ''x1'' \<and> \<not> set ''x1'' \<subseteq> set ''0123456789'' \<and>
   splitHostPort ''example.com:x1'' = Inr (''example.com:x1'', []) \<and>
   splitHostPort ''[::1]'' = Inr (''::1'', [])"
proof -
  have np: "\<not> (\<exists>a p. ''example.com'' = a @ CHR '':'' # p \<and> set p \<subseteq> set ''0123456789'')"
    by (rule no_colon_no_port) simp
  have nb: "\<not> (HasPrefix (''example.com'' @ CHR '':'' # ''x1'') ''['' \<and>
              HasSuffix (''example.com'' @ CHR '':'' # ''x1'') '']'')"
    by (simp add: HasPrefix_def)
  show ?thesis
    using port_suffix_ignored [of "''8080''" "''example.com''" "''x1''" "''example.com''"]
      port_suffix_ignored [of "''8080''" "''example.com''" "''1''" "'':''"] np nb
    by simp
qed

section \<open>Properties of the registry and the dispatcher\<close>

subsection \<open>Auxiliary facts\<close>

lemma CreateAnubisServer_present:
  assumes "DomainFromRequest (Host r) = Inr d" "mapIndex w d = Some a"
  shows "CreateAnubisServer lib w r =
           Inr (None, logInfo (''Anubis server already created for: '' @ d) w)"
  using assms
  by (auto simp: CreateAnubisServer_def mapIndex_def then_p_def split: option.splits)

lemma CreateAnubisServer_fail:
  assumes "DomainFromRequest (Host r) = Inr d" "mapIndex w d = None"
    "New lib (newCalls w) (newOptions d w) = Some e"
  shows "\<exists>w'. CreateAnubisServer lib w r = Inr (Some e, w') \<and>
           mapIndex w' = mapIndex w \<and> AnubisServers w' \<noteq> None \<and> servers w' = servers w \<and>
           newCalls w' = Suc (newCalls w) \<and> Target w' = Target w \<and> AnubisPolicy w' = AnubisPolicy w"
  using assms
  by (auto simp: CreateAnubisServer_def mapIndex_def then_p_def Let_def logInfo_def newOptions_def
      fun_eq_iff split: option.splits)

lemma CreateAnubisServer_fresh:
  assumes "DomainFromRequest (Host r) = Inr d" "mapIndex w d = None"
    "New lib (newCalls w) (newOptions d w) = None"
  shows "\<exists>w'. CreateAnubisServer lib w r = Inr (None, w') \<and>
           mapIndex w' = (mapIndex w)(d \<mapsto> length (servers w)) \<and>
           servers w' = servers w @ [newOptions d w] \<and>
           newCalls w' = Suc (newCalls w) \<and> Target w' = Target w \<and> AnubisPolicy w' = AnubisPolicy w"
  using assms
  by (auto simp: CreateAnubisServer_def mapIndex_def mapAssign_def then_p_def Let_def logInfo_def
      newOptions_def fun_eq_iff split: option.splits)


lemma logInfo_frame [simp]:
  "mapIndex (logInfo msg w) = mapIndex w" "AnubisServers (logInfo msg w) = AnubisServers w"
  "servers (logInfo msg w) = servers w" "newCalls (logInfo msg w) = newCalls w"
  "Target (logInfo msg w) = Target w" "AnubisPolicy (logInfo msg w) = AnubisPolicy w"
  "Next (logInfo msg w) = Next w" "logged (logInfo msg w) = logged w @ [(Info, msg)]"
  by (simp_all add: logInfo_def mapIndex_def fun_eq_iff)

lemma logError_frame [simp]:
  "mapIndex (logError msg w) = mapIndex w" "AnubisServers (logError msg w) = AnubisServers w"
  "servers (logError msg w) = servers w" "newCalls (logError msg w) = newCalls w"
  "Target (logError msg w) = Target w" "AnubisPolicy (logError msg w) = AnubisPolicy w"
  "Next (logError msg w) = Next w" "logged (logError msg w) = logged w @ [(Error, msg)]"
  by (simp_all add: logError_def mapIndex_def fun_eq_iff)

lemma Next_update_frame [simp]:
  "mapIndex (w\<lparr>Next := h\<rparr>) = mapIndex w"
  by (simp add: mapIndex_def fun_eq_iff)

lemma passThrough_result:
  assumes "Next w = Some h"
  shows "\<exists>w'. passThrough w r =
           Inr (case Target w of Some t \<Rightarrow> Redirect t StatusTemporaryRedirect
                | None \<Rightarrow> Downstream (h r), w') \<and>
         mapIndex w' = mapIndex w \<and> AnubisServers w' = AnubisServers w \<and>
         servers w' = servers w \<and> newCalls w' = newCalls w \<and>
         Target w' = Target w \<and> AnubisPolicy w' = AnubisPolicy w \<and>
         (\<forall>e. Target w = None \<and> h r = Some e \<longrightarrow>
            last (logged w') = (Error, ''Anubis error when calling Next'' @ e))"
  using assms
  by (auto simp: passThrough_def Let_def split: option.splits)

lemma ServeHTTP_delegate:
  assumes "DomainFromRequest (Host r) = Inr d" "CreateAnubisServer lib w r = Inr (None, w1)"
    "mapIndex w1 d = Some a"
  shows "\<exists>out w'. ServeHTTP lib w r nxt = Inr (out, w') \<and>
           returned out = None \<and> delegatedTo out = Some a \<and>
           response out = Some (case Serve lib a r of
                                  Answer \<Rightarrow> EngineAnswer
                                | Pass \<Rightarrow> (case Target w1 of
                                     Some t \<Rightarrow> Redirect t StatusTemporaryRedirect
                                   | None \<Rightarrow> Downstream (nxt r))) \<and>
           mapIndex w' = mapIndex w1 \<and> servers w' = servers w1 \<and> newCalls w' = newCalls w1 \<and>
           Target w' = Target w1 \<and> AnubisPolicy w' = AnubisPolicy w1 \<and>
           (\<forall>e. Serve lib a r = Pass \<and> Target w1 = None \<and> nxt r = Some e \<longrightarrow>
              last (logged w') = (Error, ''Anubis error when calling Next'' @ e))"
proof -
  let ?w4 = "(logInfo ''Anubis middleware sending request''
               (logInfo (''Anubis middleware processing request, path: '' @ URLPath r) w1))
             \<lparr>Next := Some nxt\<rparr>"
  have frame: "mapIndex ?w4 = mapIndex w1" "servers ?w4 = servers w1"
    "newCalls ?w4 = newCalls w1" "Target ?w4 = Target w1" "AnubisPolicy ?w4 = AnubisPolicy w1"
    "Next ?w4 = Some nxt"
    by simp_all
  have serve: "ServeHTTP lib w r nxt =
      (case Serve lib a r of
         Answer \<Rightarrow> Inr (\<lparr>returned = None, delegatedTo = Some a, response = Some EngineAnswer\<rparr>, ?w4)
       | Pass \<Rightarrow> then_p (passThrough ?w4 r) (\<lambda>(s, w5).
           Inr (\<lparr>returned = None, delegatedTo = Some a, response = Some s\<rparr>, w5)))"
    by (simp add: ServeHTTP_def then_p_def Let_def assms del: append.simps)
  show ?thesis
  proof (cases "Serve lib a r")
    case Answer
    with serve frame show ?thesis by simp
  next
    case Pass
    from passThrough_result [OF frame(6), of r] obtain w' where
      "passThrough ?w4 r =
           Inr (case Target ?w4 of Some t \<Rightarrow> Redirect t StatusTemporaryRedirect
                | None \<Rightarrow> Downstream (nxt r), w')"
      "mapIndex w' = mapIndex ?w4" "servers w' = servers ?w4" "newCalls w' = newCalls ?w4"
      "Target w' = Target ?w4" "AnubisPolicy w' = AnubisPolicy ?w4"
      "\<forall>e. Target ?w4 = None \<and> nxt r = Some e \<longrightarrow>
            last (logged w') = (Error, ''Anubis error when calling Next'' @ e)"
      by blast
    with serve Pass frame show ?thesis by (simp add: then_p_def)
  qed
qed

lemma ServeHTTP_present:
  assumes "DomainFromRequest (Host r) = Inr d" "mapIndex w d = Some a"
  shows "\<exists>out w'. ServeHTTP lib w r nxt = Inr (out, w') \<and>
           returned out = None \<and> delegatedTo out = Some a \<and>
           response out = Some (case Serve lib a r of
                                  Answer \<Rightarrow> EngineAnswer
                                | Pass \<Rightarrow> (case Target w of
                                     Some t \<Rightarrow> Redirect t StatusTemporaryRedirect
                                   | None \<Rightarrow> Downstream (nxt r))) \<and>
           mapIndex w' = mapIndex w \<and> servers w' = servers w \<and> newCalls w' = newCalls w \<and>
           Target w' = Target w \<and> AnubisPolicy w' = AnubisPolicy w \<and>
           (\<forall>e. Serve lib a r = Pass \<and> Target w = None \<and> nxt r = Some e \<longrightarrow>
              last (logged w') = (Error, ''Anubis error when calling Next'' @ e))"
  using ServeHTTP_delegate [OF assms(1) CreateAnubisServer_present [OF assms], where nxt = nxt]
    assms(2)
  by (simp cong: decision.case_cong)

lemma ServeHTTP_fresh:
  assumes "DomainFromRequest (Host r) = Inr d" "mapIndex w d = None"
    "New lib (newCalls w) (newOptions d w) = None"
  shows "\<exists>out w'. ServeHTTP lib w r nxt = Inr (out, w') \<and>
           returned out = None \<and> delegatedTo out = Some (length (servers w)) \<and>
           response out = Some (case Serve lib (length (servers w)) r of
                                  Answer \<Rightarrow> EngineAnswer
                                | Pass \<Rightarrow> (case Target w of
                                     Some t \<Rightarrow> Redirect t StatusTemporaryRedirect
                                   | None \<Rightarrow> Downstream (nxt r))) \<and>
           mapIndex w' = (mapIndex w)(d \<mapsto> length (servers w)) \<and>
           servers w' = servers w @ [newOptions d w] \<and> newCalls w' = Suc (newCalls w) \<and>
           Target w' = Target w \<and> AnubisPolicy w' = AnubisPolicy w \<and>
           (\<forall>e. Serve lib (length (servers w)) r = Pass \<and> Target w = None \<and> nxt r = Some e \<longrightarrow>
              last (logged w') = (Error, ''Anubis error when calling Next'' @ e))"
proof -
  from CreateAnubisServer_fresh [OF assms] obtain w1 where
    c: "CreateAnubisServer lib w r = Inr (None, w1)"
    and w1: "mapIndex w1 = (mapIndex w)(d \<mapsto> length (servers w))"
      "servers w1 = servers w @ [newOptions d w]" "newCalls w1 = Suc (newCalls w)"
      "Target w1 = Target w" "AnubisPolicy w1 = AnubisPolicy w"
    by blast
  from w1(1) have "mapIndex w1 d = Some (length (servers w))" by simp
  from ServeHTTP_delegate [OF assms(1) c this, where nxt = nxt] show ?thesis
    unfolding w1 .
qed

lemma ServeHTTP_fail:
  assumes "DomainFromRequest (Host r) = Inr d" "mapIndex w d = None"
    "New lib (newCalls w) (newOptions d w) = Some e"
  shows "\<exists>out w'. ServeHTTP lib w r nxt = Inr (out, w') \<and>
           returned out = Some e \<and> delegatedTo out = None \<and> response out = None \<and>
           mapIndex w' = mapIndex w \<and> AnubisServers w' \<noteq> None \<and>
           servers w' = servers w \<and> newCalls w' = Suc (newCalls w) \<and>
           Target w' = Target w \<and> AnubisPolicy w' = AnubisPolicy w \<and>
           last (logged w') = (Error, ''Anubis middleware create server error'' @ e)"
proof -
  from CreateAnubisServer_fail [OF assms] obtain w1 where
    c: "CreateAnubisServer lib w r = Inr (Some e, w1)"
    and w1: "mapIndex w1 = mapIndex w" "AnubisServers w1 \<noteq> None"
      "servers w1 = servers w" "newCalls w1 = Suc (newCalls w)"
      "Target w1 = Target w" "AnubisPolicy w1 = AnubisPolicy w"
    by blast
  have "ServeHTTP lib w r nxt =
          Inr (\<lparr>returned = Some e, delegatedTo = None, response = None\<rparr>,
               logError (''Anubis middleware create server error'' @ e) w1)"
    by (simp add: ServeHTTP_def then_p_def assms(1) c del: append.simps)
  with w1 show ?thesis by simp
qed

lemma sequential_present:
  assumes "\<forall>(r, nxt) \<in> set rs. DomainFromRequest (Host r) = Inr d" "mapIndex w d = Some a"
  shows "\<exists>outs w'. sequentialRequests lib w rs = Inr (outs, w') \<and> length outs = length rs \<and>
           (\<forall>out \<in> set outs. returned out = None \<and> delegatedTo out = Some a) \<and>
           mapIndex w' = mapIndex w \<and> servers w' = servers w \<and> newCalls w' = newCalls w"
  using assms
proof (induction rs arbitrary: w)
  case Nil
  then show ?case by simp
next
  case (Cons x rs)
  obtain r nxt where x: "x = (r, nxt)" by (cases x)
  with Cons.prems have d: "DomainFromRequest (Host r) = Inr d" by simp
  from ServeHTTP_present [OF d Cons.prems(2), where lib = lib and nxt = nxt] obtain out w1 where
    s: "ServeHTTP lib w r nxt = Inr (out, w1)" "returned out = None" "delegatedTo out = Some a"
    and w1: "mapIndex w1 = mapIndex w" "servers w1 = servers w" "newCalls w1 = newCalls w"
    by blast
  from w1(1) Cons.prems(2) have "mapIndex w1 d = Some a" by simp
  with Cons.IH [of w1] Cons.prems(1) obtain outs w' where
    "sequentialRequests lib w1 rs = Inr (outs, w')" "length outs = length rs"
    "\<forall>out \<in> set outs. returned out = None \<and> delegatedTo out = Some a"
    "mapIndex w' = mapIndex w1" "servers w' = servers w1" "newCalls w' = newCalls w1"
    by auto
  with s w1 x show ?case by (simp add: then_p_def)
qed


lemma ServeHTTP_fail_registry:
  assumes "DomainFromRequest (Host r) = Inr d" "mapIndex w d = None"
    "New lib (newCalls w) (newOptions d w) = Some e"
    "ServeHTTP lib w r nxt = Inr (out, w')"
  shows "\<exists>t. AnubisServers w' = Some t \<and> d \<notin> dom t"
proof -
  from ServeHTTP_fail [OF assms(1-3), where nxt = nxt] assms(4)
  have "mapIndex w' = mapIndex w" "AnubisServers w' \<noteq> None" by auto
  with assms(2) have "mapIndex w' d = None" "AnubisServers w' \<noteq> None" by simp_all
  then show ?thesis by (auto simp: mapIndex_def split: option.splits)
qed

lemma ServeHTTP_summary:
  assumes "DomainFromRequest (Host r) = Inr d"
  shows "\<exists>out w'. ServeHTTP lib w r nxt = Inr (out, w') \<and>
           returned out = (case mapIndex w d of
                             Some a \<Rightarrow> None
                           | None \<Rightarrow> New lib (newCalls w) (newOptions d w)) \<and>
           (case returned out of
              Some e \<Rightarrow> delegatedTo out = None \<and> response out = None \<and>
                last (logged w') = (Error, ''Anubis middleware create server error'' @ e)
            | None \<Rightarrow>
                delegatedTo out = Some (case mapIndex w d of Some a \<Rightarrow> a
                                        | None \<Rightarrow> length (servers w)) \<and>
                response out =
                  Some (case Serve lib (case mapIndex w d of Some a \<Rightarrow> a
                                        | None \<Rightarrow> length (servers w)) r of
                          Answer \<Rightarrow> EngineAnswer
                        | Pass \<Rightarrow> (case Target w of
                                     Some t \<Rightarrow> Redirect t StatusTemporaryRedirect
                                   | None \<Rightarrow> Downstream (nxt r))))"
proof (cases "mapIndex w d")
  case (Some a)
  from ServeHTTP_present [OF assms Some, where lib = lib and nxt = nxt] Some
  show ?thesis by auto
next
  case None
  show ?thesis
  proof (cases "New lib (newCalls w) (newOptions d w)")
    case (Some e)
    from ServeHTTP_fail [OF assms None Some, where nxt = nxt] None Some
    show ?thesis by auto
  next
    case none: None
    from ServeHTTP_fresh [OF assms None none, where nxt = nxt] None none
    show ?thesis by auto
  qed
qed

lemma ServeHTTP_downstream_error_logged:
  assumes "DomainFromRequest (Host r) = Inr d" "ServeHTTP lib w r nxt = Inr (out, w')"
    "delegatedTo out = Some a" "Serve lib a r = Pass" "Target w = None" "nxt r = Some e"
  shows "last (logged w') = (Error, ''Anubis error when calling Next'' @ e)"
proof (cases "mapIndex w d")
  case (Some b)
  from ServeHTTP_present [OF assms(1) Some, where lib = lib and nxt = nxt] assms(2-6)
  show ?thesis by auto
next
  case None
  show ?thesis
  proof (cases "New lib (newCalls w) (newOptions d w)")
    case (Some e')
    from ServeHTTP_fail [OF assms(1) None Some, where nxt = nxt] assms(2,3)
    show ?thesis by auto
  next
    case none: None
    from ServeHTTP_fresh [OF assms(1) None none, where nxt = nxt] assms(2-6)
    show ?thesis by auto
  qed
qed

lemma sequential_unseen:
  assumes "\<forall>(r, nxt) \<in> set rs. DomainFromRequest (Host r) = Inr d" "mapIndex w d = None"
  shows "\<exists>outs w'. sequentialRequests lib w rs = Inr (outs, w') \<and> length outs = length rs \<and>
           (\<forall>out \<in> set outs. delegatedTo out = None \<or>
                               delegatedTo out = Some (length (servers w))) \<and>
           length (servers w') \<le> length (servers w) + 1"
  using assms
proof (induction rs arbitrary: w)
  case Nil
  then show ?case by simp
next
  case (Cons x rs)
  obtain r nxt where x: "x = (r, nxt)" by (cases x)
  with Cons.prems have d: "DomainFromRequest (Host r) = Inr d" by simp
  from Cons.prems(1) have rest: "\<forall>(r, nxt) \<in> set rs. DomainFromRequest (Host r) = Inr d"
    by simp
  show ?case
  proof (cases "New lib (newCalls w) (newOptions d w)")
    case (Some e)
    from ServeHTTP_fail [OF d Cons.prems(2) Some, where nxt = nxt] obtain out w1 where
      s: "ServeHTTP lib w r nxt = Inr (out, w1)" "delegatedTo out = None"
      and w1: "mapIndex w1 = mapIndex w" "servers w1 = servers w"
      by blast
    from w1(1) Cons.prems(2) have "mapIndex w1 d = None" by simp
    from Cons.IH [OF rest this] obtain outs w' where
      "sequentialRequests lib w1 rs = Inr (outs, w')" "length outs = length rs"
      "\<forall>out \<in> set outs. delegatedTo out = None \<or> delegatedTo out = Some (length (servers w1))"
      "length (servers w') \<le> length (servers w1) + 1"
      by blast
    with s w1 x show ?thesis by (simp add: then_p_def)
  next
    case None
    from ServeHTTP_fresh [OF d Cons.prems(2) None, where nxt = nxt] obtain out w1 where
      s: "ServeHTTP lib w r nxt = Inr (out, w1)" "delegatedTo out = Some (length (servers w))"
      and w1: "mapIndex w1 = (mapIndex w)(d \<mapsto> length (servers w))"
        "servers w1 = servers w @ [newOptions d w]"
      by blast
    from w1(1) have "mapIndex w1 d = Some (length (servers w))" by simp
    from sequential_present [OF rest this, of lib] obtain outs w' where
      "sequentialRequests lib w1 rs = Inr (outs, w')" "length outs = length rs"
      "\<forall>out \<in> set outs. returned out = None \<and> delegatedTo out = Some (length (servers w))"
      "servers w' = servers w1"
      by blast
    with s w1 x show ?thesis by (simp add: then_p_def)
  qed
qed

subsection \<open>The claims about the registry and the dispatcher\<close>

lemma example_domains:
  "DomainFromRequest ''example.com'' = Inr ''example.com''"
  "DomainFromRequest ''a.example.com'' = Inr ''example.com''"
  "DomainFromRequest ''example.com:8080'' = Inr ''example.com''"
  by code_simp+

text \<open>
  Claim C1. Take \<open>N \<ge> 1\<close> requests served one after the other whose hosts all resolve
  to the apex domain \<open>d\<close>, with \<open>d\<close> not yet in the registry. All of them are
  served (no panic); at most one server is constructed, and every request that is
  delegated is delegated to the server at the same address, the first free one. When
  \<^verbatim>\<open>libanubis.New\<close> returns no error on the first request, exactly one server is
  constructed, with cookie domain \<open>d\<close>, by exactly one call of \<^verbatim>\<open>libanubis.New\<close>, the
  registry maps \<open>d\<close> to it, and each of the \<open>N\<close> requests returns no error and is
  delegated to that same server.
\<close>
theorem one_instance_per_domain:
  assumes "\<forall>(r, nxt) \<in> set rs. DomainFromRequest (Host r) = Inr d"
    and "rs \<noteq> []"
    and "mapIndex w d = None"
  shows "\<exists>outs w'. sequentialRequests lib w rs = Inr (outs, w') \<and> length outs = length rs \<and>
           (\<forall>out \<in> set outs. delegatedTo out = None \<or>
                               delegatedTo out = Some (length (servers w))) \<and>
           length (servers w') \<le> length (servers w) + 1 \<and>
           (New lib (newCalls w) (newOptions d w) = None \<longrightarrow>
              (\<forall>out \<in> set outs. returned out = None \<and>
                                  delegatedTo out = Some (length (servers w))) \<and>
              servers w' = servers w @ [newOptions d w] \<and>
              newCalls w' = newCalls w + 1 \<and>
              mapIndex w' d = Some (length (servers w)))"
proof -
  from sequential_unseen [OF assms(1,3), of lib] obtain outs w' where
    u: "sequentialRequests lib w rs = Inr (outs, w')" "length outs = length rs"
      "\<forall>out \<in> set outs. delegatedTo out = None \<or> delegatedTo out = Some (length (servers w))"
      "length (servers w') \<le> length (servers w) + 1"
    by blast
  have "(\<forall>out \<in> set outs. returned out = None \<and> delegatedTo out = Some (length (servers w))) \<and>
        servers w' = servers w @ [newOptions d w] \<and> newCalls w' = newCalls w + 1 \<and>
        mapIndex w' d = Some (length (servers w))"
    if ok: "New lib (newCalls w) (newOptions d w) = None"
  proof -
    from assms(2) obtain r nxt rest where rs: "rs = (r, nxt) # rest"
      by (cases rs) auto
    with assms(1) have d: "DomainFromRequest (Host r) = Inr d"
      and rest: "\<forall>(r, nxt) \<in> set rest. DomainFromRequest (Host r) = Inr d"
      by simp_all
    from ServeHTTP_fresh [OF d assms(3) ok, where nxt = nxt] obtain out w1 where
      s: "ServeHTTP lib w r nxt = Inr (out, w1)" "returned out = None"
        "delegatedTo out = Some (length (servers w))"
      and w1: "mapIndex w1 = (mapIndex w)(d \<mapsto> length (servers w))"
        "servers w1 = servers w @ [newOptions d w]" "newCalls w1 = Suc (newCalls w)"
      by blast
    from w1(1) have m: "mapIndex w1 d = Some (length (servers w))" by simp
    from sequential_present [OF rest m, of lib] obtain outs1 w2 where
      p: "sequentialRequests lib w1 rest = Inr (outs1, w2)"
        "\<forall>out \<in> set outs1. returned out = None \<and> delegatedTo out = Some (length (servers w))"
        "mapIndex w2 = mapIndex w1" "servers w2 = servers w1" "newCalls w2 = newCalls w1"
      by blast
    from s(1) p(1) rs have "sequentialRequests lib w rs = Inr (out # outs1, w2)"
      by (simp add: then_p_def)
    with u(1) have "outs = out # outs1" "w' = w2" by simp_all
    with s p w1 m show ?thesis by simp
  qed
  then have "New lib (newCalls w) (newOptions d w) = None \<longrightarrow>
      (\<forall>out \<in> set outs. returned out = None \<and> delegatedTo out = Some (length (servers w))) \<and>
      servers w' = servers w @ [newOptions d w] \<and> newCalls w' = newCalls w + 1 \<and>
      mapIndex w' d = Some (length (servers w))"
    by (rule impI)
  with u show ?thesis
    by (intro exI [of _ outs] exI [of _ w'] conjI)
qed


theorem one_instance_per_domain_witness:
  "\<exists>outs w'.
     sequentialRequests \<lparr>New = (\<lambda>k opts. None), Serve = (\<lambda>a r. Pass)\<rparr>
       \<lparr>Target = None, AnubisPolicy = None, AnubisServers = None, Next = None,
        servers = [], newCalls = 0, logged = []\<rparr>
       [(\<lparr>Host = ''a.example.com'', URLPath = ''/''\<rparr>, \<lambda>r. None),
        (\<lparr>Host = ''example.com:8080'', URLPath = ''/x''\<rparr>, \<lambda>r. None)] = Inr (outs, w') \<and>
     map delegatedTo outs = [Some 0, Some 0] \<and> map returned outs = [None, None] \<and>
     length (servers w') = 1 \<and> newCalls w' = 1 \<and> mapIndex w' ''example.com'' = Some 0"
proof -
  let ?lib = "\<lparr>New = (\<lambda>k opts. None), Serve = (\<lambda>a r. Pass)\<rparr>"
  let ?w = "\<lparr>Target = None, AnubisPolicy = None, AnubisServers = None, Next = None,
        servers = [], newCalls = 0, logged = []\<rparr>"
  let ?rs = "[(\<lparr>Host = ''a.example.com'', URLPath = ''/''\<rparr>, \<lambda>r. None),
        (\<lparr>Host = ''example.com:8080'', URLPath = ''/x''\<rparr>, \<lambda>r. None)]"
  have same: "\<forall>(r, nxt) \<in> set ?rs. DomainFromRequest (Host r) = Inr ''example.com''"
    by (simp add: example_domains)
  have first: "?rs \<noteq> []" by simp
  have unseen: "mapIndex ?w ''example.com'' = None" by (simp add: mapIndex_def)
  have ok: "New ?lib (newCalls ?w) (newOptions ''example.com'' ?w) = None" by simp
  from one_instance_per_domain [OF same first unseen, of ?lib] ok obtain outs w' where
    r: "sequentialRequests ?lib ?w ?rs = Inr (outs, w')" "length outs = 2"
      "\<forall>out \<in> set outs. returned out = None \<and> delegatedTo out = Some 0"
      "servers w' = [newOptions ''example.com'' ?w]" "newCalls w' = 1"
      "mapIndex w' ''example.com'' = Some 0"
    by auto
  from r(2) obtain o1 o2 where "outs = [o1, o2]"
    by (auto simp: length_Suc_conv numeral_2_eq_2)
  with r show ?thesis by auto
qed

text \<open>
  Claim C2. When \<^verbatim>\<open>libanubis.New\<close> fails with \<open>e\<close> for a domain \<open>d\<close> that is not in the
  registry, \<^verbatim>\<open>ServeHTTP\<close> returns \<open>e\<close> to its caller and delegates to no server; the
  registry is a map without an entry for \<open>d\<close> (and looks up as before), and no server
  was constructed. A later request for \<open>d\<close> calls \<^verbatim>\<open>libanubis.New\<close> again and returns
  what that new call returns: when it succeeds, the request is delegated to the
  server it constructed.
\<close>
theorem failed_creation_is_not_cached:
  assumes "DomainFromRequest (Host r) = Inr d" "mapIndex w d = None"
    "New lib (newCalls w) (newOptions d w) = Some e"
  shows "\<exists>out w'. ServeHTTP lib w r nxt = Inr (out, w') \<and>
           returned out = Some e \<and> delegatedTo out = None \<and> response out = None \<and>
           (\<exists>t. AnubisServers w' = Some t \<and> d \<notin> dom t) \<and>
           mapIndex w' = mapIndex w \<and> servers w' = servers w \<and> newCalls w' = newCalls w + 1 \<and>
           (\<forall>r2 nxt2. DomainFromRequest (Host r2) = Inr d \<longrightarrow>
              (\<exists>out2 w2. ServeHTTP lib w' r2 nxt2 = Inr (out2, w2) \<and>
                 newCalls w2 = newCalls w + 2 \<and>
                 returned out2 = New lib (newCalls w + 1) (newOptions d w) \<and>
                 (returned out2 = None \<longrightarrow>
                    delegatedTo out2 = Some (length (servers w)) \<and>
                    servers w2 = servers w @ [newOptions d w] \<and>
                    mapIndex w2 d = Some (length (servers w)))))"
proof -
  from ServeHTTP_fail [OF assms, where nxt = nxt] obtain out w' where
    s: "ServeHTTP lib w r nxt = Inr (out, w')" "returned out = Some e" "delegatedTo out = None"
      "response out = None"
    and w': "mapIndex w' = mapIndex w" "servers w' = servers w"
      "newCalls w' = Suc (newCalls w)" "AnubisPolicy w' = AnubisPolicy w"
    by blast
  from ServeHTTP_fail_registry [OF assms s(1)]
  have reg: "\<exists>t. AnubisServers w' = Some t \<and> d \<notin> dom t" .
  from w'(1) assms(2) have unseen: "mapIndex w' d = None" by simp
  from w'(4) have opts: "newOptions d w' = newOptions d w" by (simp add: newOptions_def)
  have retry: "\<exists>out2 w2. ServeHTTP lib w' r2 nxt2 = Inr (out2, w2) \<and>
                 newCalls w2 = newCalls w + 2 \<and>
                 returned out2 = New lib (newCalls w + 1) (newOptions d w) \<and>
                 (returned out2 = None \<longrightarrow>
                    delegatedTo out2 = Some (length (servers w)) \<and>
                    servers w2 = servers w @ [newOptions d w] \<and>
                    mapIndex w2 d = Some (length (servers w)))"
    if d2: "DomainFromRequest (Host r2) = Inr d" for r2 nxt2
  proof (cases "New lib (newCalls w') (newOptions d w')")
    case (Some e2)
    from ServeHTTP_fail [OF d2 unseen Some, where nxt = nxt2] Some w' opts
    show ?thesis by auto
  next
    case None
    from ServeHTTP_fresh [OF d2 unseen None, where nxt = nxt2] None w' opts
    show ?thesis by auto
  qed
  from s w' reg retry show ?thesis by auto
qed

theorem failed_creation_is_not_cached_witness:
  "\<exists>out w'.
     ServeHTTP \<lparr>New = (\<lambda>k opts. if k = 0 then Some ''bad config'' else None),
                Serve = (\<lambda>a r. Answer)\<rparr>
       \<lparr>Target = None, AnubisPolicy = None, AnubisServers = None, Next = None,
        servers = [], newCalls = 0, logged = []\<rparr>
       \<lparr>Host = ''example.com'', URLPath = ''/''\<rparr> (\<lambda>r. None) = Inr (out, w') \<and>
     returned out = Some ''bad config'' \<and> mapIndex w' ''example.com'' = None \<and>
     newCalls w' = 1 \<and> servers w' = [] \<and>
     (\<exists>out2 w2.
        ServeHTTP \<lparr>New = (\<lambda>k opts. if k = 0 then Some ''bad config'' else None),
                   Serve = (\<lambda>a r. Answer)\<rparr>
          w' \<lparr>Host = ''a.example.com'', URLPath = ''/''\<rparr> (\<lambda>r. None) = Inr (out2, w2) \<and>
        newCalls w2 = 2 \<and> returned out2 = None \<and> delegatedTo out2 = Some 0)"
proof -
  let ?lib = "\<lparr>New = (\<lambda>k opts. if k = 0 then Some ''bad config'' else None),
              Serve = (\<lambda>a r. Answer)\<rparr>"
  let ?w = "\<lparr>Target = None, AnubisPolicy = None, AnubisServers = None, Next = None,
        servers = [], newCalls = 0, logged = []\<rparr>"
  let ?r = "\<lparr>Host = ''example.com'', URLPath = ''/''\<rparr>"
  let ?r2 = "\<lparr>Host = ''a.example.com'', URLPath = ''/''\<rparr>"
  have d: "DomainFromRequest (Host ?r) = Inr ''example.com''"
    and d2: "DomainFromRequest (Host ?r2) = Inr ''example.com''"
    by (simp_all add: example_domains)
  have unseen: "mapIndex ?w ''example.com'' = None" by (simp add: mapIndex_def)
  have bad: "New ?lib (newCalls ?w) (newOptions ''example.com'' ?w) = Some ''bad config''"
    by simp
  from failed_creation_is_not_cached [OF d unseen bad, where nxt = "\<lambda>r. None"]
  obtain out w' where
    s: "ServeHTTP ?lib ?w ?r (\<lambda>r. None) = Inr (out, w')" "returned out = Some ''bad config''"
      "mapIndex w' = mapIndex ?w" "servers w' = servers ?w" "newCalls w' = newCalls ?w + 1"
    and retry: "\<forall>r2 nxt2. DomainFromRequest (Host r2) = Inr ''example.com'' \<longrightarrow>
              (\<exists>out2 w2. ServeHTTP ?lib w' r2 nxt2 = Inr (out2, w2) \<and>
                 newCalls w2 = newCalls ?w + 2 \<and>
                 returned out2 = New ?lib (newCalls ?w + 1) (newOptions ''example.com'' ?w) \<and>
                 (returned out2 = None \<longrightarrow>
                    delegatedTo out2 = Some (length (servers ?w)) \<and>
                    servers w2 = servers ?w @ [newOptions ''example.com'' ?w] \<and>
                    mapIndex w2 ''example.com'' = Some (length (servers ?w))))"
    by blast
  from retry [rule_format, OF d2, of "\<lambda>r. None"] obtain out2 w2 where
    "ServeHTTP ?lib w' ?r2 (\<lambda>r. None) = Inr (out2, w2)" "newCalls w2 = newCalls ?w + 2"
    "returned out2 = New ?lib (newCalls ?w + 1) (newOptions ''example.com'' ?w)"
    "returned out2 = None \<longrightarrow> delegatedTo out2 = Some (length (servers ?w))"
    by (elim exE conjE) (rule that, assumption+, simp)
  with s unseen show ?thesis by auto
qed


text \<open>
  Claim C3, as stated, fails for the downstream handler: with no target configured,
  a first request for \<open>example.com\<close> that the server lets pass, and a downstream
  handler that returns the error \<open>boom\<close>, \<^verbatim>\<open>ServeHTTP\<close> returns the nil error to its
  caller.
\<close>
theorem downstream_error_counterexample:
  "map_sum id fst
     (ServeHTTP \<lparr>New = (\<lambda>k opts. None), Serve = (\<lambda>a r. Pass)\<rparr>
        \<lparr>Target = None, AnubisPolicy = None, AnubisServers = None, Next = None,
         servers = [], newCalls = 0, logged = []\<rparr>
        \<lparr>Host = ''example.com'', URLPath = ''/''\<rparr> (\<lambda>r. Some ''boom'')) =
   Inr \<lparr>returned = None, delegatedTo = Some 0, response = Some (Downstream (Some ''boom''))\<rparr>"
  by (simp add: ServeHTTP_def CreateAnubisServer_def passThrough_def mapIndex_def mapAssign_def
      logInfo_def logError_def newOptions_def example_domains then_p_def Let_def)

text \<open>
  Claim C3, amended. Every request is served without a panic. \<^verbatim>\<open>ServeHTTP\<close> returns
  to its caller exactly the error of instance creation: nil when the domain is in
  the registry, the result of \<^verbatim>\<open>libanubis.New\<close> otherwise; a creation error is
  logged and nothing is delegated. When no error is returned the request was
  delegated to a server. An error of the downstream handler, called for a request
  the server lets pass when no target is configured, is logged, and \<^verbatim>\<open>ServeHTTP\<close>
  returns nil.
\<close>
theorem creation_errors_returned_downstream_errors_logged:
  "\<exists>d out w'. DomainFromRequest (Host r) = Inr d \<and> ServeHTTP lib w r nxt = Inr (out, w') \<and>
     returned out = (case mapIndex w d of
                       Some a \<Rightarrow> None
                     | None \<Rightarrow> New lib (newCalls w) (newOptions d w)) \<and>
     (\<forall>e. returned out = Some e \<longrightarrow>
        delegatedTo out = None \<and> response out = None \<and>
        last (logged w') = (Error, ''Anubis middleware create server error'' @ e)) \<and>
     (returned out = None \<longrightarrow> (\<exists>a. delegatedTo out = Some a)) \<and>
     (\<forall>a e. delegatedTo out = Some a \<and> Serve lib a r = Pass \<and> Target w = None \<and>
            nxt r = Some e \<longrightarrow>
        returned out = None \<and> response out = Some (Downstream (Some e)) \<and>
        last (logged w') = (Error, ''Anubis error when calling Next'' @ e))"
proof -
  obtain d where d: "DomainFromRequest (Host r) = Inr d"
    using DomainFromRequest_total [of "Host r"] by blast
  from ServeHTTP_summary [OF d, of lib w nxt] obtain out w' where
    s: "ServeHTTP lib w r nxt = Inr (out, w')"
    and ret: "returned out = (case mapIndex w d of
                       Some a \<Rightarrow> None
                     | None \<Rightarrow> New lib (newCalls w) (newOptions d w))"
    and sum: "case returned out of
              Some e \<Rightarrow> delegatedTo out = None \<and> response out = None \<and>
                last (logged w') = (Error, ''Anubis middleware create server error'' @ e)
            | None \<Rightarrow>
                delegatedTo out = Some (case mapIndex w d of Some a \<Rightarrow> a
                                        | None \<Rightarrow> length (servers w)) \<and>
                response out =
                  Some (case Serve lib (case mapIndex w d of Some a \<Rightarrow> a
                                        | None \<Rightarrow> length (servers w)) r of
                          Answer \<Rightarrow> EngineAnswer
                        | Pass \<Rightarrow> (case Target w of
                                     Some t \<Rightarrow> Redirect t StatusTemporaryRedirect
                                   | None \<Rightarrow> Downstream (nxt r)))"
    by blast
  have a: "\<forall>e. returned out = Some e \<longrightarrow>
        delegatedTo out = None \<and> response out = None \<and>
        last (logged w') = (Error, ''Anubis middleware create server error'' @ e)"
    using sum by (auto split: option.splits)
  have b: "returned out = None \<longrightarrow> (\<exists>a. delegatedTo out = Some a)"
    using sum by (auto split: option.splits)
  have c: "returned out = None \<and> response out = Some (Downstream (Some e)) \<and>
        last (logged w') = (Error, ''Anubis error when calling Next'' @ e)"
    if "delegatedTo out = Some a" "Serve lib a r = Pass" "Target w = None" "nxt r = Some e"
    for a e
  proof -
    from that(1) sum have "returned out = None"
      by (cases "returned out") auto
    moreover from this sum that have "response out = Some (Downstream (Some e))"
      by auto
    moreover have "last (logged w') = (Error, ''Anubis error when calling Next'' @ e)"
      by (rule ServeHTTP_downstream_error_logged [OF d s that])
    ultimately show ?thesis by simp
  qed
  then have c': "\<forall>a e. delegatedTo out = Some a \<and> Serve lib a r = Pass \<and> Target w = None \<and>
            nxt r = Some e \<longrightarrow>
        returned out = None \<and> response out = Some (Downstream (Some e)) \<and>
        last (logged w') = (Error, ''Anubis error when calling Next'' @ e)"
    by (intro allI impI) (elim conjE)
  from d s ret a b c' show ?thesis
    by (intro exI [of _ d] exI [of _ out] exI [of _ w'] conjI)
qed

theorem creation_errors_returned_downstream_errors_logged_witness:
  "(\<exists>out w'.
      ServeHTTP \<lparr>New = (\<lambda>k opts. Some ''bad config''), Serve = (\<lambda>a r. Pass)\<rparr>
        \<lparr>Target = None, AnubisPolicy = None, AnubisServers = None, Next = None,
         servers = [], newCalls = 0, logged = []\<rparr>
        \<lparr>Host = ''example.com'', URLPath = ''/''\<rparr> (\<lambda>r. None) = Inr (out, w') \<and>
      returned out = Some ''bad config'' \<and> delegatedTo out = None \<and>
      last (logged w') = (Error, ''Anubis middleware create server errorbad config'')) \<and>
   (\<exists>out w'.
      ServeHTTP \<lparr>New = (\<lambda>k opts. None), Serve = (\<lambda>a r. Pass)\<rparr>
        \<lparr>Target = None, AnubisPolicy = None, AnubisServers = None, Next = None,
         servers = [], newCalls = 0, logged = []\<rparr>
        \<lparr>Host = ''example.com'', URLPath = ''/''\<rparr> (\<lambda>r. Some ''boom'') = Inr (out, w') \<and>
      returned out = None \<and> response out = Some (Downstream (Some ''boom'')) \<and>
      last (logged w') = (Error, ''Anubis error when calling Nextboom''))"
proof -
  let ?bad = "\<lparr>New = (\<lambda>k opts. Some ''bad config''), Serve = (\<lambda>a r. Pass)\<rparr>"
  let ?good = "\<lparr>New = (\<lambda>k opts. None), Serve = (\<lambda>a r. Pass)\<rparr>"
  let ?w = "\<lparr>Target = None, AnubisPolicy = None, AnubisServers = None, Next = None,
         servers = [], newCalls = 0, logged = []\<rparr>"
  let ?r = "\<lparr>Host = ''example.com'', URLPath = ''/''\<rparr>"
  have unseen: "mapIndex ?w d = None" for d by (simp add: mapIndex_def)
  from creation_errors_returned_downstream_errors_logged [of ?r ?bad ?w "\<lambda>r. None"]
  obtain d out w' where
    "ServeHTTP ?bad ?w ?r (\<lambda>r. None) = Inr (out, w')"
    "returned out = (case mapIndex ?w d of
                       Some a \<Rightarrow> None
                     | None \<Rightarrow> New ?bad (newCalls ?w) (newOptions d ?w))"
    "\<forall>e. returned out = Some e \<longrightarrow>
        delegatedTo out = None \<and> response out = None \<and>
        last (logged w') = (Error, ''Anubis middleware create server error'' @ e)"
    by (elim exE conjE) (rule that, assumption+)
  then have one: "\<exists>out w'. ServeHTTP ?bad ?w ?r (\<lambda>r. None) = Inr (out, w') \<and>
      returned out = Some ''bad config'' \<and> delegatedTo out = None \<and>
      last (logged w') = (Error, ''Anubis middleware create server errorbad config'')"
    by (simp add: unseen)
  from creation_errors_returned_downstream_errors_logged [of ?r ?good ?w "\<lambda>r. Some ''boom''"]
  obtain d out w' where
    "ServeHTTP ?good ?w ?r (\<lambda>r. Some ''boom'') = Inr (out, w')"
    "returned out = (case mapIndex ?w d of
                       Some a \<Rightarrow> None
                     | None \<Rightarrow> New ?good (newCalls ?w) (newOptions d ?w))"
    "returned out = None \<longrightarrow> (\<exists>a. delegatedTo out = Some a)"
    "\<forall>a e. delegatedTo out = Some a \<and> Serve ?good a ?r = Pass \<and> Target ?w = None \<and>
            (\<lambda>r. Some ''boom'') ?r = Some e \<longrightarrow>
        returned out = None \<and> response out = Some (Downstream (Some e)) \<and>
        last (logged w') = (Error, ''Anubis error when calling Next'' @ e)"
    by (elim exE conjE) (rule that, assumption+)
  then have two: "\<exists>out w'. ServeHTTP ?good ?w ?r (\<lambda>r. Some ''boom'') = Inr (out, w') \<and>
      returned out = None \<and> response out = Some (Downstream (Some ''boom'')) \<and>
      last (logged w') = (Error, ''Anubis error when calling Nextboom'')"
    by (auto simp: unseen)
  from one two show ?thesis by (rule conjI)
qed

text \<open>
  Claim C4. The pass-through action redirects with
  \<^verbatim>\<open>http.StatusTemporaryRedirect\<close> (307) to the configured target when \<^verbatim>\<open>Target\<close> is
  not nil, and calls the downstream handler when it is nil. So every request, of
  any domain, that its server lets pass gets the redirect to exactly the configured
  target and the downstream handler is not called; without a target it gets the
  downstream handler.
\<close>
theorem target_redirects_instead_of_downstream:
  "StatusTemporaryRedirect = 307 \<and>
   (Target w = Some t \<longrightarrow>
      (\<exists>w'. passThrough w r = Inr (Redirect t StatusTemporaryRedirect, w'))) \<and>
   (Target w = None \<and> Next w = Some h \<longrightarrow>
      (\<exists>w'. passThrough w r = Inr (Downstream (h r), w'))) \<and>
   (DomainFromRequest (Host r) = Inr d \<and> ServeHTTP lib w r nxt = Inr (out, w1) \<and>
    delegatedTo out = Some a \<and> Serve lib a r = Pass \<longrightarrow>
      (\<forall>t. Target w = Some t \<longrightarrow> response out = Some (Redirect t StatusTemporaryRedirect)) \<and>
      (Target w = None \<longrightarrow> response out = Some (Downstream (nxt r))))"
proof -
  have code: "StatusTemporaryRedirect = 307" by (simp add: StatusTemporaryRedirect_def)
  have redirect: "\<exists>w'. passThrough w r = Inr (Redirect t StatusTemporaryRedirect, w')"
    if "Target w = Some t"
    using that by (simp add: passThrough_def Let_def)
  have downstream: "\<exists>w'. passThrough w r = Inr (Downstream (h r), w')"
    if "Target w = None" "Next w = Some h"
    using passThrough_result [OF that(2), of r] that(1) by auto
  have served: "(\<forall>t. Target w = Some t \<longrightarrow> response out = Some (Redirect t StatusTemporaryRedirect)) \<and>
      (Target w = None \<longrightarrow> response out = Some (Downstream (nxt r)))"
    if d: "DomainFromRequest (Host r) = Inr d" and s: "ServeHTTP lib w r nxt = Inr (out, w1)"
      and a: "delegatedTo out = Some a" and p: "Serve lib a r = Pass"
  proof -
    from ServeHTTP_summary [OF d, of lib w nxt] s
    have sum: "case returned out of
              Some e \<Rightarrow> delegatedTo out = None \<and> response out = None \<and>
                last (logged w1) = (Error, ''Anubis middleware create server error'' @ e)
            | None \<Rightarrow>
                delegatedTo out = Some (case mapIndex w d of Some a \<Rightarrow> a
                                        | None \<Rightarrow> length (servers w)) \<and>
                response out =
                  Some (case Serve lib (case mapIndex w d of Some a \<Rightarrow> a
                                        | None \<Rightarrow> length (servers w)) r of
                          Answer \<Rightarrow> EngineAnswer
                        | Pass \<Rightarrow> (case Target w of
                                     Some t \<Rightarrow> Redirect t StatusTemporaryRedirect
                                   | None \<Rightarrow> Downstream (nxt r)))"
      by auto
    from a sum have "returned out = None" by (cases "returned out") auto
    with sum a p show ?thesis by auto
  qed
  from code redirect downstream served show ?thesis by blast
qed

theorem target_redirects_instead_of_downstream_witness:
  "(\<exists>out w'.
      ServeHTTP \<lparr>New = (\<lambda>k opts. None), Serve = (\<lambda>a r. Pass)\<rparr>
        \<lparr>Target = Some ''https://qwant.com'', AnubisPolicy = None, AnubisServers = None,
         Next = None, servers = [], newCalls = 0, logged = []\<rparr>
        \<lparr>Host = ''a.example.com'', URLPath = ''/''\<rparr> (\<lambda>r. None) = Inr (out, w') \<and>
      response out = Some (Redirect ''https://qwant.com'' 307)) \<and>
   (\<exists>out w'.
      ServeHTTP \<lparr>New = (\<lambda>k opts. None), Serve = (\<lambda>a r. Pass)\<rparr>
        \<lparr>Target = None, AnubisPolicy = None, AnubisServers = None,
         Next = None, servers = [], newCalls = 0, logged = []\<rparr>
        \<lparr>Host = ''a.example.com'', URLPath = ''/''\<rparr> (\<lambda>r. None) = Inr (out, w') \<and>
      response out = Some (Downstream None)) \<and>
   (\<exists>w'.
      passThrough
        \<lparr>Target = Some ''https://qwant.com'', AnubisPolicy = None, AnubisServers = None,
         Next = None, servers = [], newCalls = 0, logged = []\<rparr>
        \<lparr>Host = ''a.example.com'', URLPath = ''/''\<rparr> =
      Inr (Redirect ''https://qwant.com'' 307, w')) \<and>
   (\<exists>w'.
      passThrough
        \<lparr>Target = None, AnubisPolicy = None, AnubisServers = None,
         Next = Some (\<lambda>r. Some ''boom''), servers = [], newCalls = 0, logged = []\<rparr>
        \<lparr>Host = ''a.example.com'', URLPath = ''/''\<rparr> =
      Inr (Downstream (Some ''boom''), w'))"
proof -
  let ?lib = "\<lparr>New = (\<lambda>k opts. None), Serve = (\<lambda>a r. Pass)\<rparr>"
  let ?wt = "\<lparr>Target = Some ''https://qwant.com'', AnubisPolicy = None, AnubisServers = None,
         Next = None, servers = [], newCalls = 0, logged = []\<rparr>"
  let ?wn = "\<lparr>Target = None, AnubisPolicy = None, AnubisServers = None,
         Next = None, servers = [], newCalls = 0, logged = []\<rparr>"
  let ?r = "\<lparr>Host = ''a.example.com'', URLPath = ''/''\<rparr>"
  have d: "DomainFromRequest (Host ?r) = Inr ''example.com''"
    by (simp add: example_domains)
  have "\<exists>out w'. ServeHTTP ?lib w ?r (\<lambda>r. None) = Inr (out, w') \<and>
          (\<exists>a. delegatedTo out = Some a)" for w
    using ServeHTTP_summary [OF d, of ?lib w "\<lambda>r. None"]
    by (auto split: option.splits)
  then obtain outt wt' outn wn' at an where
    t: "ServeHTTP ?lib ?wt ?r (\<lambda>r. None) = Inr (outt, wt')" "delegatedTo outt = Some at"
    and n: "ServeHTTP ?lib ?wn ?r (\<lambda>r. None) = Inr (outn, wn')" "delegatedTo outn = Some an"
    by metis
  from target_redirects_instead_of_downstream
    [of ?wt "''https://qwant.com''" ?r "\<lambda>r. None" "''example.com''" ?lib "\<lambda>r. None" outt wt' at]
    d t
  have one: "response outt = Some (Redirect ''https://qwant.com'' 307)" by simp
  from target_redirects_instead_of_downstream
    [of ?wn "''https://qwant.com''" ?r "\<lambda>r. None" "''example.com''" ?lib "\<lambda>r. None" outn wn' an]
    d n
  have two: "response outn = Some (Downstream None)" by simp
  let ?wh = "\<lparr>Target = None, AnubisPolicy = None, AnubisServers = None,
         Next = Some (\<lambda>r. Some ''boom''), servers = [], newCalls = 0, logged = []\<rparr>"
  from target_redirects_instead_of_downstream [of ?wt "''https://qwant.com''" ?r]
  have three: "\<exists>w'. passThrough ?wt ?r = Inr (Redirect ''https://qwant.com'' 307, w')"
    by simp
  from target_redirects_instead_of_downstream [of ?wh _ ?r "\<lambda>r. Some ''boom''"]
  have four: "\<exists>w'. passThrough ?wh ?r = Inr (Downstream (Some ''boom''), w')"
    by simp
  from t n one two have "(\<exists>out w'. ServeHTTP ?lib ?wt ?r (\<lambda>r. None) = Inr (out, w') \<and>
      response out = Some (Redirect ''https://qwant.com'' 307)) \<and>
   (\<exists>out w'. ServeHTTP ?lib ?wn ?r (\<lambda>r. None) = Inr (out, w') \<and>
      response out = Some (Downstream None))"
    by blast
  with three four show ?thesis by (intro conjI) simp_all
qed

end
